theory Spec2Isabelle
  imports Complex_Main "HOL-Library.Multiset"
begin

section \<open>Strings and integers as Python has them\<close>

text \<open>
  A Python \<open>str\<close> is modelled by its UTF-8 encoding: a \<open>string\<close> whose characters are
  bytes. Both output files are written with \<open>encoding="utf-8"\<close>, so this is what reaches
  the disk; \<open>"".join\<close>, \<open>+\<close> and \<open>replace\<close> with an ASCII pattern act on the encoding
  exactly as they act on the code points.
\<close>

definition ENDPOINT :: string where
  "ENDPOINT = ''http://localhost:9090/v1/chat/completions''"

definition MODEL :: string where
  "MODEL = ''LightOnOCR-2-1B''"

definition MAX_WORKERS :: nat where
  "MAX_WORKERS = 8"

definition REQUEST_TIMEOUT :: nat where
  "REQUEST_TIMEOUT = 120"

definition digit_char :: "nat \<Rightarrow> char" where
  "digit_char d = ''0123456789'' ! d"

text \<open>\<open>str(n)\<close> for a non-negative integer: its decimal digits.\<close>

fun str_nat :: "nat \<Rightarrow> string" where
  "str_nat n = (if n < 10 then [digit_char n] else str_nat (n div 10) @ [digit_char (n mod 10)])"

declare str_nat.simps [simp del]

text \<open>\<open>s.startswith(p)\<close>.\<close>

fun startswith :: "string \<Rightarrow> string \<Rightarrow> bool" where
  "startswith s [] = True"
| "startswith [] (p # ps) = False"
| "startswith (c # cs) (p # ps) = (c = p \<and> startswith cs ps)"

text \<open>\<open>sub in s\<close>.\<close>

fun contains_str :: "string \<Rightarrow> string \<Rightarrow> bool" where
  "contains_str [] sub = (sub = [])"
| "contains_str (c # cs) sub = (startswith (c # cs) sub \<or> contains_str cs sub)"

text \<open>
  \<open>s.replace(old, new)\<close> for a non-empty \<open>old\<close> (the source's only call passes the literal
  \<open>".md"\<close>): every occurrence of \<open>old\<close>, found from the left and not overlapping an earlier
  one, is replaced by \<open>new\<close>. After a match at the head, the scan resumes behind the
  \<open>length old\<close> characters of the match.
\<close>

fun py_replace :: "string \<Rightarrow> string \<Rightarrow> string \<Rightarrow> string" where
  "py_replace [] old new = []"
| "py_replace (c # cs) old new =
     (if old \<noteq> [] \<and> startswith (c # cs) old
      then new @ py_replace (drop (length old - 1) cs) old new
      else c # py_replace cs old new)"

text \<open>The code points of a well-formed UTF-8 string, each as its own string.\<close>

definition utf8_len :: "char \<Rightarrow> nat" where
  "utf8_len c = (let b = (of_char c :: nat)
                 in if b < 0x80 then 1 else if b < 0xE0 then 2 else if b < 0xF0 then 3 else 4)"

fun code_points :: "string \<Rightarrow> string list" where
  "code_points [] = []"
| "code_points (c # cs) =
     (c # take (utf8_len c - 1) cs) # code_points (drop (utf8_len c - 1) cs)"

section \<open>Exceptions and JSON values\<close>

text \<open>
  The exception classes the handlers of \<open>ocr_image\<close> and \<open>pdf_to_md\<close> tell apart, each with
  the text \<open>str(e)\<close> of the exception. \<open>Timeout\<close> is \<open>requests.Timeout\<close> and its subclasses;
  \<open>RequestException\<close> is every other \<open>requests.RequestException\<close> (HTTPError,
  ConnectionError, RetryError, ...); \<open>OtherError\<close> is any further subclass of \<open>Exception\<close>;
  \<open>PlainException\<close> is the \<open>Exception(...)\<close> that \<open>ocr_image\<close> raises itself.
\<close>

datatype py_exception =
    Timeout string
  | RequestException string
  | KeyError string
  | IndexError string
  | TypeError string
  | OtherError string
  | PlainException string

fun str_exc :: "py_exception \<Rightarrow> string" where
  "str_exc (Timeout m) = m"
| "str_exc (RequestException m) = m"
| "str_exc (KeyError m) = m"
| "str_exc (IndexError m) = m"
| "str_exc (TypeError m) = m"
| "str_exc (OtherError m) = m"
| "str_exc (PlainException m) = m"

text \<open>
  The Python value that \<open>response.json()\<close> returns. An object is the association list of
  its \<open>dict\<close>.
\<close>

datatype json =
    JNull
  | JBool bool
  | JInt int
  | JFloat rat
  | JStr string
  | JArr "json list"
  | JObj "(string \<times> json) list"

fun type_name :: "json \<Rightarrow> string" where
  "type_name JNull = ''NoneType''"
| "type_name (JBool b) = ''bool''"
| "type_name (JInt i) = ''int''"
| "type_name (JFloat r) = ''float''"
| "type_name (JStr s) = ''str''"
| "type_name (JArr xs) = ''list''"
| "type_name (JObj kvs) = ''dict''"

definition quoted :: "string \<Rightarrow> string" where
  "quoted s = [CHR 0x27] @ s @ [CHR 0x27]"

definition not_subscriptable :: "json \<Rightarrow> py_exception" where
  "not_subscriptable v = TypeError (quoted (type_name v) @ '' object is not subscriptable'')"

text \<open>
  \<open>v[k]\<close> for a string literal \<open>k\<close>. \<open>str(KeyError(k))\<close> is \<open>repr(k)\<close>, the key in single
  quotes for the keys the source uses. The texts of the \<open>TypeError\<close>s are those of
  CPython 3.11; no property below depends on their wording.
\<close>

fun getitem_key :: "json \<Rightarrow> string \<Rightarrow> py_exception + json" where
  "getitem_key (JObj kvs) k =
     (case map_of kvs k of Some v \<Rightarrow> Inr v | None \<Rightarrow> Inl (KeyError (quoted k)))"
| "getitem_key (JArr xs) k =
     Inl (TypeError ''list indices must be integers or slices, not str'')"
| "getitem_key (JStr s) k =
     Inl (TypeError (''string indices must be integers, not '' @ quoted ''str''))"
| "getitem_key v k = Inl (not_subscriptable v)"

text \<open>\<open>v[i]\<close> for a non-negative integer literal \<open>i\<close>.\<close>

fun getitem_idx :: "json \<Rightarrow> nat \<Rightarrow> py_exception + json" where
  "getitem_idx (JArr xs) i =
     (if i < length xs then Inr (xs ! i) else Inl (IndexError ''list index out of range''))"
| "getitem_idx (JObj kvs) i = Inl (KeyError (str_nat i))"
| "getitem_idx (JStr s) i =
     (if i < length (code_points s) then Inr (JStr (code_points s ! i))
      else Inl (IndexError ''string index out of range''))"
| "getitem_idx v i = Inl (not_subscriptable v)"

section \<open>The OCR call\<close>

record content_part =
  part_type :: string
  image_url :: string

record message =
  role :: string
  content :: "content_part list"

record payload =
  model :: string
  messages :: "message list"
  max_tokens :: nat
  temperature :: rat
  top_p :: rat

record request =
  url :: string
  json_payload :: payload
  timeout :: nat

text \<open>
  What the HTTP library hands back. \<open>status_code\<close> is the status of the final response,
  \<open>http_error\<close> the text of the \<open>HTTPError\<close> that \<open>raise_for_status\<close> raises for it, and
  \<open>json_result\<close> what \<open>response.json()\<close> does: return the decoded body or raise.
\<close>

record response =
  status_code :: nat
  http_error :: string
  json_result :: "py_exception + json"

text \<open>
  The network as \<open>ocr_image\<close> sees it: what \<open>session.post\<close> does for the call made for a
  page, after whatever the transport layer retried: raise or return a response.
\<close>

type_synonym net = "nat \<Rightarrow> request \<Rightarrow> py_exception + response"

text \<open>\<open>response.raise_for_status()\<close>: an \<open>HTTPError\<close> for a 4xx or 5xx status.\<close>

definition raise_for_status :: "response \<Rightarrow> py_exception + unit" where
  "raise_for_status r =
     (if 400 \<le> status_code r \<and> status_code r < 600
      then Inl (RequestException (http_error r)) else Inr ())"

definition bind_exc :: "py_exception + 'a \<Rightarrow> ('a \<Rightarrow> py_exception + 'b) \<Rightarrow> py_exception + 'b" where
  "bind_exc r f = (case r of Inl e \<Rightarrow> Inl e | Inr v \<Rightarrow> f v)"

definition make_payload :: "string \<Rightarrow> payload" where
  "make_payload image_base64 =
     \<lparr>model = MODEL,
      messages = [\<lparr>role = ''user'',
                   content = [\<lparr>part_type = ''image_url'',
                               image_url = ''data:image/png;base64,'' @ image_base64\<rparr>]\<rparr>],
      max_tokens = 4096,
      temperature = 2 / 10,
      top_p = 9 / 10\<rparr>"

definition make_request :: "string \<Rightarrow> request" where
  "make_request image_base64 =
     \<lparr>url = ENDPOINT, json_payload = make_payload image_base64, timeout = REQUEST_TIMEOUT\<rparr>"

text \<open>The body of the \<open>try\<close> block of \<open>ocr_image\<close>.\<close>

definition ocr_try :: "net \<Rightarrow> nat \<Rightarrow> string \<Rightarrow> py_exception + json" where
  "ocr_try post page_num image_base64 =
     bind_exc (post page_num (make_request image_base64)) (\<lambda>response.
     bind_exc (raise_for_status response) (\<lambda>_.
     bind_exc (json_result response) (\<lambda>body.
     bind_exc (getitem_key body ''choices'') (\<lambda>choices.
     bind_exc (getitem_idx choices 0) (\<lambda>choice.
     bind_exc (getitem_key choice ''message'') (\<lambda>msg.
     getitem_key msg ''content''))))))"

definition msg_timeout :: string where
  "msg_timeout =
     [CHR 0xE8, CHR 0xAF, CHR 0xB7, CHR 0xE6, CHR 0xB1, CHR 0x82, CHR 0xE8, CHR 0xB6, CHR 0x85,
      CHR 0xE6, CHR 0x97, CHR 0xB6, CHR 0xEF, CHR 0xBC, CHR 0x88]
     @ str_nat REQUEST_TIMEOUT
     @ [CHR 0xE7, CHR 0xA7, CHR 0x92, CHR 0xEF, CHR 0xBC, CHR 0x89]"

definition prefix_request_failed :: string where
  "prefix_request_failed =
     [CHR 0xE8, CHR 0xAF, CHR 0xB7, CHR 0xE6, CHR 0xB1, CHR 0x82, CHR 0xE5, CHR 0xA4, CHR 0xB1,
      CHR 0xE8, CHR 0xB4, CHR 0xA5] @ '': ''"

definition prefix_parse_failed :: string where
  "prefix_parse_failed =
     [CHR 0xE5, CHR 0x93, CHR 0x8D, CHR 0xE5, CHR 0xBA, CHR 0x94, CHR 0xE8, CHR 0xA7, CHR 0xA3,
      CHR 0xE6, CHR 0x9E, CHR 0x90, CHR 0xE5, CHR 0xA4, CHR 0xB1, CHR 0xE8, CHR 0xB4, CHR 0xA5]
     @ '': ''"

text \<open>
  \<open>ocr_image\<close>: the \<open>try\<close> block under its three handlers, in the source's order. An
  exception of any other class leaves the function as it is.
\<close>

definition ocr_image :: "net \<Rightarrow> nat \<Rightarrow> string \<Rightarrow> py_exception + json" where
  "ocr_image post page_num image_base64 =
     (case ocr_try post page_num image_base64 of
        Inr text \<Rightarrow> Inr text
      | Inl (Timeout m) \<Rightarrow> Inl (PlainException msg_timeout)
      | Inl (RequestException m) \<Rightarrow> Inl (PlainException (prefix_request_failed @ m))
      | Inl (KeyError m) \<Rightarrow> Inl (PlainException (prefix_parse_failed @ m))
      | Inl (IndexError m) \<Rightarrow> Inl (PlainException (prefix_parse_failed @ m))
      | Inl e \<Rightarrow> Inl e)"

section \<open>The session and its transport\<close>

datatype http_method = GET | HEAD | POST | PUT | DELETE | OPTIONS | TRACE | PATCH

record retry =
  retry_total :: nat
  backoff_factor :: rat
  status_forcelist :: "nat list"
  allowed_methods :: "http_method list"

record adapter =
  pool_connections :: nat
  pool_maxsize :: nat
  max_retries :: retry

text \<open>
  \<open>Retry.DEFAULT_ALLOWED_METHODS\<close> of urllib3: the methods that a \<open>Retry\<close> built without
  \<open>allowed_methods\<close>, as the one of \<open>create_session\<close> is, retries on.
\<close>

definition DEFAULT_ALLOWED_METHODS :: "http_method list" where
  "DEFAULT_ALLOWED_METHODS = [HEAD, GET, PUT, DELETE, OPTIONS, TRACE]"

text \<open>
  \<open>create_session\<close>: the session as its mounts, each a URL prefix with its adapter. Every
  worker thread gets its session from this function (\<open>get_thread_session\<close>).
\<close>

definition create_session :: "(string \<times> adapter) list" where
  "create_session =
     (let retry = \<lparr>retry_total = 3, backoff_factor = 1 / 10,
                   status_forcelist = [500, 502, 503, 504],
                   allowed_methods = DEFAULT_ALLOWED_METHODS\<rparr>;
          adapter = \<lparr>pool_connections = MAX_WORKERS, pool_maxsize = MAX_WORKERS * 2,
                     max_retries = retry\<rparr>
      in [(''http://'', adapter), (''https://'', adapter)])"

definition msg_max_retries :: string where
  "msg_max_retries = ''Max retries exceeded (too many error responses)''"

text \<open>
  The adapter's sending of one request, modelled from the documentation of urllib3's
  \<open>Retry\<close> (the library is not part of the repository): \<open>total\<close> is the number of retries
  allowed, and "a retry is initiated if the request method is in \<open>allowed_methods\<close> and
  the response status code is in \<open>status_forcelist\<close>". \<open>server k\<close> is the response to the
  \<open>k\<close>-th transmission of the request, \<open>left\<close> the retries still allowed. The result is
  what the adapter hands back and the number of transmissions made. When the retries are
  used up, requests raises \<open>RetryError\<close>, a \<open>RequestException\<close>. The wait before a retry
  (\<open>backoff_factor\<close>) is time and is not modelled; neither are transmissions that end
  without a response: what \<open>session.post\<close> raises for those is left to \<open>net\<close>.
\<close>

fun send :: "retry \<Rightarrow> http_method \<Rightarrow> (nat \<Rightarrow> response) \<Rightarrow> nat \<Rightarrow> nat
             \<Rightarrow> (py_exception + response) \<times> nat" where
  "send cfg method server 0 k =
     (if method \<in> set (allowed_methods cfg)
         \<and> status_code (server k) \<in> set (status_forcelist cfg)
      then (Inl (RequestException msg_max_retries), Suc k)
      else (Inr (server k), Suc k))"
| "send cfg method server (Suc left) k =
     (if method \<in> set (allowed_methods cfg)
         \<and> status_code (server k) \<in> set (status_forcelist cfg)
      then send cfg method server left (Suc k)
      else (Inr (server k), Suc k))"

text \<open>
  \<open>session.post(url, ...)\<close> against a server that answers every transmission: the adapter
  is the one mounted for the URL, the method is POST.
\<close>

definition session_post ::
  "(string \<times> adapter) list \<Rightarrow> string \<Rightarrow> (nat \<Rightarrow> response) \<Rightarrow> (py_exception + response) \<times> nat" where
  "session_post session target server =
     (case find (\<lambda>(prefix, a). startswith target prefix) session of
        None \<Rightarrow> (Inl (RequestException ''No connection adapters were found''), 0)
      | Some (prefix, a) \<Rightarrow>
          send (max_retries a) POST server (retry_total (max_retries a)) 0)"

text \<open>
  The network that a server makes: \<open>server page_num k\<close> is its response to the \<open>k\<close>-th
  transmission of the request for the page.
\<close>

definition answering_net :: "(nat \<Rightarrow> nat \<Rightarrow> response) \<Rightarrow> net" where
  "answering_net server page_num req =
     fst (session_post create_session (url req) (server page_num))"

section \<open>Dispatch: the worker pool and the collection loop\<close>

text \<open>
  The pool is created with \<open>max_workers = MAX_WORKERS\<close>. How many calls of \<open>ocr_image\<close> run
  at a time, and which, is the executor's business; it shows in the program only as the
  order in which the futures resolve.

  \<open>as_completed\<close> yields every submitted future exactly once, each when it has resolved.
  The order is not the program's to choose: the schedule \<open>sched\<close> says, at each step, which
  of the futures still pending resolves next (the \<open>k\<close>-th of them, modulo their number);
  when the schedule is used up the rest resolve in submission order.
\<close>

function as_completed :: "'a list \<Rightarrow> nat list \<Rightarrow> 'a list" where
  "as_completed [] sched = []"
| "as_completed (f # fs) [] = f # as_completed fs []"
| "as_completed (f # fs) (k # sched) =
     (f # fs) ! (k mod length (f # fs))
     # as_completed (take (k mod length (f # fs)) (f # fs)
                     @ drop (Suc (k mod length (f # fs))) (f # fs)) sched"
  by pat_completeness auto
termination
  by (relation "measure (\<lambda>(fs, sched). length fs)") auto

text \<open>
  What the run does to the outside, in the order in which the main thread does it:
  \<open>Resolved p\<close> when the loop takes the resolved future of page \<open>p\<close> from \<open>as_completed\<close>,
  \<open>WriteText path text\<close> for a \<open>Path(path).write_text(text, encoding="utf-8")\<close> that
  succeeds, \<open>WriteFailed path\<close> for one that raises. Printing is not modelled.
\<close>

datatype event = Resolved nat | WriteText string string | WriteFailed string

record world =
  files :: "string \<rightharpoonup> string"
  trace :: "event list"

record collected =
  results :: "nat \<rightharpoonup> json"
  failed_pages :: "nat list"
  completed :: nat

definition failure_marker :: "py_exception \<Rightarrow> string" where
  "failure_marker e =
     [CHR ''['', CHR 0xE5, CHR 0xA4, CHR 0x84, CHR 0xE7, CHR 0x90, CHR 0x86, CHR 0xE5, CHR 0xA4,
      CHR 0xB1, CHR 0xE8, CHR 0xB4, CHR 0xA5] @ '': '' @ str_exc e @ '']''"

text \<open>One round of the loop over \<open>as_completed(future_to_page)\<close>.\<close>

definition collect_one ::
  "collected \<times> world \<Rightarrow> (py_exception + json) \<times> nat \<Rightarrow> collected \<times> world" where
  "collect_one st fut =
     (case st of (col, w) \<Rightarrow>
      case fut of (outcome, page_num) \<Rightarrow>
        (case outcome of
           Inr text \<Rightarrow>
             col\<lparr>results := (results col)(page_num \<mapsto> text), completed := completed col + 1\<rparr>
         | Inl e \<Rightarrow>
             col\<lparr>results := (results col)(page_num \<mapsto> JStr (failure_marker e)),
                 failed_pages := failed_pages col @ [page_num + 1]\<rparr>,
         w\<lparr>trace := trace w @ [Resolved page_num]\<rparr>))"

text \<open>
  The \<open>with ThreadPoolExecutor(...)\<close> block: one future per rendered page, holding what
  \<open>ocr_image\<close> returns or raises for it, then the collection loop.
\<close>

definition dispatch ::
  "net \<Rightarrow> nat list \<Rightarrow> (nat \<times> string) list \<Rightarrow> world \<Rightarrow> collected \<times> world" where
  "dispatch post sched pages_data w =
     (let future_to_page =
            map (\<lambda>(page_num, img_b64). (ocr_image post page_num img_b64, page_num)) pages_data
      in foldl collect_one
           (\<lparr>results = Map.empty, failed_pages = [], completed = 0\<rparr>, w)
           (as_completed future_to_page sched))"

section \<open>Assembly and the two output files\<close>

definition page_separator :: "nat \<Rightarrow> string" where
  "page_separator page_num =
     [CHR 0x0A, CHR 0x0A] @ ''## Page '' @ str_nat (page_num + 1) @ [CHR 0x0A, CHR 0x0A]"

text \<open>
  The loop that fills \<open>all_content\<close>; \<open>results[page_num]\<close> raises \<open>KeyError\<close> for a missing
  page.
\<close>

fun build_content :: "(nat \<rightharpoonup> json) \<Rightarrow> nat list \<Rightarrow> py_exception + json list" where
  "build_content res [] = Inr []"
| "build_content res (page_num # rest) =
     (case res page_num of
        None \<Rightarrow> Inl (KeyError (str_nat page_num))
      | Some v \<Rightarrow>
          (case build_content res rest of
             Inl e \<Rightarrow> Inl e
           | Inr items \<Rightarrow> Inr (JStr (page_separator page_num) # v # items)))"

text \<open>\<open>"".join(items)\<close>: a \<open>TypeError\<close> at the first item that is not a \<open>str\<close>.\<close>

fun join_from :: "nat \<Rightarrow> json list \<Rightarrow> py_exception + string" where
  "join_from i [] = Inr []"
| "join_from i (JStr s # items) =
     (case join_from (Suc i) items of Inl e \<Rightarrow> Inl e | Inr t \<Rightarrow> Inr (s @ t))"
| "join_from i (v # items) =
     Inl (TypeError (''sequence item '' @ str_nat i @ '': expected str instance, ''
                     @ type_name v @ '' found''))"

definition py_join :: "json list \<Rightarrow> py_exception + string" where
  "py_join items = join_from 0 items"

text \<open>
  What the file system does with one \<open>write_text\<close>, which opens the file for writing and
  then writes the text. \<open>Written\<close>: the file now holds the text. \<open>OpenFails e\<close>: opening
  raises \<open>e\<close> (a missing directory, no permission) and nothing changes. \<open>WriteFails e left\<close>:
  the file was opened, so created or emptied, and holds \<open>left\<close> when writing raises \<open>e\<close>
  (a full disk; a text that cannot be encoded, with \<open>left\<close> empty). The file system is a
  parameter of the run: its answer for a path and a text.
\<close>

datatype write_result = Written | OpenFails py_exception | WriteFails py_exception string

type_synonym disk = "string \<Rightarrow> string \<Rightarrow> write_result"

definition write_text :: "disk \<Rightarrow> string \<Rightarrow> string \<Rightarrow> world \<Rightarrow> world \<times> py_exception option" where
  "write_text fs path text w =
     (case fs path text of
        Written \<Rightarrow>
          (w\<lparr>files := (files w)(path \<mapsto> text), trace := trace w @ [WriteText path text]\<rparr>,
           None)
      | OpenFails e \<Rightarrow> (w\<lparr>trace := trace w @ [WriteFailed path]\<rparr>, Some e)
      | WriteFails e left \<Rightarrow>
          (w\<lparr>files := (files w)(path \<mapsto> left), trace := trace w @ [WriteFailed path]\<rparr>,
           Some e))"

definition with_separators_path :: "string \<Rightarrow> string" where
  "with_separators_path output_md_path =
     py_replace output_md_path ''.md'' ''_with_separators.md''"

definition clean_items :: "json list \<Rightarrow> json list" where
  "clean_items all_content =
     map snd (filter (\<lambda>(i, item). i mod 2 = 1) (List.enumerate 0 all_content))"

text \<open>
  \<open>pdf_to_md\<close> from the rendered pages on (\<open>rendered\<close> is the list of base64 images that the
  rendering loop produces, one per page) under the file system \<open>fs\<close>: the outside after
  the run, and the exception that ended it, if one did.
\<close>

definition pdf_to_md ::
  "disk \<Rightarrow> net \<Rightarrow> nat list \<Rightarrow> string list \<Rightarrow> string \<Rightarrow> world
   \<Rightarrow> world \<times> py_exception option" where
  "pdf_to_md fs post sched rendered output_md_path w =
     (let total_pages = length rendered;
          pages_data = List.enumerate 0 rendered;
          (col, w1) = dispatch post sched pages_data w
      in case build_content (results col) [0..<total_pages] of
           Inl e \<Rightarrow> (w1, Some e)
         | Inr all_content \<Rightarrow>
             (case py_join all_content of
                Inl e \<Rightarrow> (w1, Some e)
              | Inr combined_text \<Rightarrow>
                  (case write_text fs (with_separators_path output_md_path) combined_text w1 of
                     (w2, Some e) \<Rightarrow> (w2, Some e)
                   | (w2, None) \<Rightarrow>
                       (case py_join (clean_items all_content) of
                          Inl e \<Rightarrow> (w2, Some e)
                        | Inr clean_text \<Rightarrow> write_text fs output_md_path clean_text w2))))"

section \<open>What the loop stores for a page\<close>

text \<open>
  The value that one round of the collection loop stores under the page number: the text
  on success, the bracketed failure marker when \<open>future.result()\<close> raises.
\<close>

definition outcome_value :: "py_exception + json \<Rightarrow> json" where
  "outcome_value outcome =
     (case outcome of Inr text \<Rightarrow> text | Inl e \<Rightarrow> JStr (failure_marker e))"

definition page_value :: "net \<Rightarrow> string list \<Rightarrow> nat \<Rightarrow> json" where
  "page_value post rendered p = outcome_value (ocr_image post p (rendered ! p))"

text \<open>
  The files written during a trace, in order: path and text of each \<open>write_text\<close> that
  succeeded.
\<close>

fun written :: "event list \<Rightarrow> (string \<times> string) list" where
  "written [] = []"
| "written (Resolved p # evs) = written evs"
| "written (WriteText path text # evs) = (path, text) # written evs"
| "written (WriteFailed path # evs) = written evs"

text \<open>The events that are a \<open>write_text\<close>, whether it succeeds or not.\<close>

fun is_write :: "event \<Rightarrow> bool" where
  "is_write (Resolved p) = False"
| "is_write (WriteText path text) = True"
| "is_write (WriteFailed path) = True"

section \<open>The specification's reading of the two files\<close>





text \<open>\<open>sep.join(parts)\<close> for strings.\<close>

fun str_join :: "string \<Rightarrow> string list \<Rightarrow> string" where
  "str_join sep [] = []"
| "str_join sep [s] = s"
| "str_join sep (s # s' # rest) = s @ sep @ str_join sep (s' # rest)"

section \<open>Sample runs\<close>

text \<open>A successful response whose completion is \<open>text\<close>.\<close>

definition ok_response :: "string \<Rightarrow> response" where
  "ok_response text =
     \<lparr>status_code = 200, http_error = [],
      json_result =
        Inr (JObj [(''choices'', JArr [JObj [(''message'', JObj [(''content'', JStr text)])]])])\<rparr>"

text \<open>Every call times out.\<close>

definition all_fail_net :: net where
  "all_fail_net page_num req = Inl (Timeout ''Read timed out.'')"

text \<open>Page 0 times out, every other page succeeds with the text \<open>hello\<close>.\<close>

definition demo_net :: net where
  "demo_net page_num req =
     (if page_num = 0 then Inl (Timeout ''Read timed out.'') else Inr (ok_response ''hello''))"

text \<open>Every page succeeds with the text \<open>hello\<close>.\<close>

definition hello_net :: net where
  "hello_net page_num req = Inr (ok_response ''hello'')"

text \<open>The server answers 200 with the body \<open>{"choices": null}\<close>.\<close>

definition null_choices_net :: net where
  "null_choices_net page_num req =
     Inr \<lparr>status_code = 200, http_error = [],
          json_result = Inr (JObj [(''choices'', JNull)])\<rparr>"

definition empty_world :: world where
  "empty_world = \<lparr>files = Map.empty, trace = []\<rparr>"

text \<open>A file system that accepts every write.\<close>

definition ok_disk :: disk where
  "ok_disk path text = Written"



text \<open>
  A server that answers the first transmission of a request with status 500 and every
  later one with the text \<open>hello\<close>.
\<close>

definition server_error_500 :: response where
  "server_error_500 =
     \<lparr>status_code = 500,
      http_error = ''500 Server Error: Internal Server Error for url: '' @ ENDPOINT,
      json_result = Inl (RequestException ''Expecting value: line 1 column 1 (char 0)'')\<rparr>"

definition flaky_server :: "nat \<Rightarrow> nat \<Rightarrow> response" where
  "flaky_server page_num k = (if k = 0 then server_error_500 else ok_response ''hello'')"

text \<open>What the loop stores for the pages of a run against \<open>demo_net\<close>.\<close>

definition demo_text :: "nat \<Rightarrow> string" where
  "demo_text p = (if p = 0 then failure_marker (PlainException msg_timeout) else ''hello'')"

text \<open>The trace of a two-page run against \<open>hello_net\<close> in which page 1 resolves first.\<close>

definition demo_events :: "event list" where
  "demo_events =
     [Resolved 1, Resolved 0,
      WriteText ''out_with_separators.md''
        (page_separator 0 @ ''hello'' @ page_separator 1 @ ''hello''),
      WriteText ''out.md'' ''hellohello'']"

section \<open>The completion order\<close>

lemma remove_nth_mset:
  "i < length xs \<Longrightarrow> mset (xs ! i # take i xs @ drop (Suc i) xs) = mset xs"
proof -
  assume a: "i < length xs"
  have "mset xs = mset (take i xs @ xs ! i # drop (Suc i) xs)"
    using id_take_nth_drop [OF a] by simp
  then show ?thesis by simp
qed

lemma mset_as_completed: "mset (as_completed fs sched) = mset fs"
proof (induction fs sched rule: as_completed.induct)
  case (1 sched)
  show ?case by simp
next
  case (2 f fs)
  then show ?case by simp
next
  case (3 f fs k sched)
  have lt: "k mod length (f # fs) < length (f # fs)" by simp
  show ?case
    using 3 remove_nth_mset [OF lt] by (simp del: mod_Suc_eq nth_Cons_Suc)
qed

lemma set_as_completed: "set (as_completed fs sched) = set fs"
  using mset_as_completed [of fs sched] by (metis set_mset_mset)

lemma as_completed_any_order:
  "mset order = mset fs \<Longrightarrow> \<exists>sched. as_completed fs sched = order"
proof (induction order arbitrary: fs)
  case Nil
  then show ?case by simp
next
  case (Cons x order)
  from Cons.prems have "x \<in> set fs"
    by (metis list.set_intros(1) set_mset_mset)
  then obtain i where i: "i < length fs" "fs ! i = x"
    by (auto simp: in_set_conv_nth)
  let ?rest = "take i fs @ drop (Suc i) fs"
  have "mset (x # ?rest) = mset fs"
    using remove_nth_mset [OF i(1)] i(2) by simp
  with Cons.prems have "mset (x # order) = mset (x # ?rest)" by simp
  then have "mset order = mset ?rest" by simp
  from Cons.IH [OF this] obtain sched where s: "as_completed ?rest sched = order" by blast
  from i obtain f fs' where fs: "fs = f # fs'" by (cases fs) auto
  have "i mod length fs = i" using i by simp
  then have "as_completed fs (i # sched) = x # order"
    using s i unfolding fs by (simp del: mod_Suc_eq nth_Cons_Suc)
  then show ?case by blast
qed

section \<open>The collection loop\<close>

lemma collect_one_trace:
  "trace (snd (foldl collect_one (col, w) futs)) = trace w @ map (\<lambda>fut. Resolved (snd fut)) futs"
proof (induction futs arbitrary: col w)
  case Nil
  show ?case by simp
next
  case (Cons fut futs)
  obtain col' w' where st: "collect_one (col, w) fut = (col', w')" by (cases "collect_one (col, w) fut")
  then have "trace w' = trace w @ [Resolved (snd fut)]"
    by (cases fut) (auto simp: collect_one_def)
  then show ?case using Cons.IH [of col' w'] st by simp
qed

lemma collect_one_files:
  "files (snd (foldl collect_one (col, w) futs)) = files w"
proof (induction futs arbitrary: col w)
  case Nil
  show ?case by simp
next
  case (Cons fut futs)
  obtain col' w' where st: "collect_one (col, w) fut = (col', w')" by (cases "collect_one (col, w) fut")
  then have "files w' = files w"
    by (cases fut) (auto simp: collect_one_def)
  then show ?case using Cons.IH [of col' w'] st by simp
qed

lemma collect_one_results:
  "results (fst (collect_one (col, w) (outcome, p))) = (results col)(p \<mapsto> outcome_value outcome)"
  by (cases outcome) (simp_all add: collect_one_def outcome_value_def)

lemma collect_results_notin:
  "p \<notin> snd ` set futs \<Longrightarrow> results (fst (foldl collect_one (col, w) futs)) p = results col p"
proof (induction futs arbitrary: col w)
  case Nil
  show ?case by simp
next
  case (Cons fut futs)
  obtain outcome q where fut: "fut = (outcome, q)" by (cases fut)
  obtain col' w' where st: "collect_one (col, w) fut = (col', w')" by (cases "collect_one (col, w) fut")
  have "results col' = (results col)(q \<mapsto> outcome_value outcome)"
    using collect_one_results [of col w outcome q] st fut by simp
  moreover have "p \<noteq> q" using Cons.prems fut by auto
  ultimately have "results col' p = results col p" by simp
  moreover have "p \<notin> snd ` set futs" using Cons.prems by auto
  ultimately show ?case using Cons.IH [of col' w'] st by simp
qed

lemma collect_results_in:
  "distinct (map snd futs) \<Longrightarrow> (outcome, p) \<in> set futs \<Longrightarrow>
   results (fst (foldl collect_one (col, w) futs)) p = Some (outcome_value outcome)"
proof (induction futs arbitrary: col w)
  case Nil
  then show ?case by simp
next
  case (Cons fut futs)
  obtain o' q where fut: "fut = (o', q)" by (cases fut)
  obtain col' w' where st: "collect_one (col, w) fut = (col', w')" by (cases "collect_one (col, w) fut")
  have res: "results col' = (results col)(q \<mapsto> outcome_value o')"
    using collect_one_results [of col w o' q] st fut by simp
  show ?case
  proof (cases "(outcome, p) = fut")
    case True
    have "snd fut \<notin> set (map snd futs)" using Cons.prems(1) by simp
    moreover have "snd fut = p" using True by (cases fut) simp
    ultimately have "p \<notin> snd ` set futs" by simp
    from collect_results_notin [OF this, of col' w']
    show ?thesis using st res True fut by simp
  next
    case False
    then have "(outcome, p) \<in> set futs" using Cons.prems(2) by simp
    moreover have "distinct (map snd futs)" using Cons.prems(1) by simp
    ultimately show ?thesis using Cons.IH [of col' w'] st by simp
  qed
qed

lemma futures_pages:
  "map snd (map (\<lambda>(page_num, img_b64). (ocr_image post page_num img_b64, page_num))
              (List.enumerate 0 rendered)) = [0..<length rendered]"
  by (simp add: enumerate_eq_zip comp_def case_prod_unfold)

lemma as_completed_step:
  "fs \<noteq> [] \<Longrightarrow> as_completed fs (k # sched) =
     fs ! (k mod length fs)
     # as_completed (take (k mod length fs) fs @ drop (Suc (k mod length fs)) fs) sched"
  by (cases fs) (simp_all del: mod_Suc_eq nth_Cons_Suc take_Suc_Cons drop_Suc_Cons)

lemma map_as_completed: "map g (as_completed fs sched) = as_completed (map g fs) sched"
proof (induction fs sched rule: as_completed.induct)
  case (1 sched)
  show ?case by simp
next
  case (2 f fs)
  then show ?case by simp
next
  case (3 f fs k sched)
  define xs where "xs = f # fs"
  define i where "i = k mod length xs"
  have ne: "xs \<noteq> []" and lt: "i < length xs" by (simp_all add: xs_def i_def)
  have IH: "map g (as_completed (take i xs @ drop (Suc i) xs) sched)
            = as_completed (map g (take i xs @ drop (Suc i) xs)) sched"
    using 3 unfolding xs_def i_def .
  have "map g (as_completed xs (k # sched))
        = g (xs ! i) # as_completed (map g (take i xs @ drop (Suc i) xs)) sched"
    using as_completed_step [OF ne, of k sched] IH by (simp add: i_def)
  moreover have "as_completed (map g xs) (k # sched)
        = map g xs ! i # as_completed (take i (map g xs) @ drop (Suc i) (map g xs)) sched"
    using as_completed_step [of "map g xs" k sched] ne by (simp add: i_def)
  ultimately show ?case
    using lt unfolding xs_def [symmetric] by (simp add: take_map drop_map)
qed

lemma dispatch_order:
  "map snd (as_completed
      (map (\<lambda>(page_num, img_b64). (ocr_image post page_num img_b64, page_num))
         (List.enumerate 0 rendered)) sched)
   = as_completed [0..<length rendered] sched"
  using futures_pages [of post rendered] by (simp only: map_as_completed)

lemma distinct_as_completed_upt: "distinct (as_completed [0..<n] sched)"
  using mset_as_completed [of "[0..<n]" sched] by (metis distinct_upt mset_eq_imp_distinct_iff)

lemma dispatch_results:
  "results (fst (dispatch post sched (List.enumerate 0 rendered) w)) p =
     (if p < length rendered then Some (page_value post rendered p) else None)"
proof -
  let ?f = "\<lambda>(page_num, img_b64). (ocr_image post page_num img_b64, page_num)"
  let ?F = "map ?f (List.enumerate 0 rendered)"
  let ?futs = "as_completed ?F sched"
  let ?init = "\<lparr>results = Map.empty, failed_pages = [], completed = 0\<rparr>"
  have d: "dispatch post sched (List.enumerate 0 rendered) w = foldl collect_one (?init, w) ?futs"
    by (simp add: dispatch_def)
  have ord: "map snd ?futs = as_completed [0..<length rendered] sched"
    by (rule dispatch_order)
  have dist: "distinct (map snd ?futs)"
    unfolding ord by (rule distinct_as_completed_upt)
  have pages: "snd ` set ?futs = {0..<length rendered}"
    using set_as_completed [of "[0..<length rendered]" sched] ord
    by (metis set_map set_upt)
  show ?thesis
  proof (cases "p < length rendered")
    case True
    then have "(p, rendered ! p) \<in> set (List.enumerate 0 rendered)"
      by (simp add: in_set_enumerate_eq)
    then have "(ocr_image post p (rendered ! p), p) \<in> set ?F" by force
    then have "(ocr_image post p (rendered ! p), p) \<in> set ?futs"
      by (simp only: set_as_completed)
    from collect_results_in [OF dist this, of ?init w]
    show ?thesis using True by (simp add: d page_value_def)
  next
    case False
    then have "p \<notin> snd ` set ?futs" unfolding pages by simp
    from collect_results_notin [OF this, of ?init w]
    show ?thesis using False by (simp add: d)
  qed
qed

lemma dispatch_trace:
  "trace (snd (dispatch post sched (List.enumerate 0 rendered) w)) =
     trace w @ map Resolved (as_completed [0..<length rendered] sched)"
proof -
  let ?f = "\<lambda>(page_num, img_b64). (ocr_image post page_num img_b64, page_num)"
  let ?futs = "as_completed (map ?f (List.enumerate 0 rendered)) sched"
  let ?init = "\<lparr>results = Map.empty, failed_pages = [], completed = 0\<rparr>"
  let ?w = "snd (foldl collect_one (?init, w) ?futs)"
  have "trace ?w = trace w @ map Resolved (map snd ?futs)"
    using collect_one_trace [of ?init w ?futs] by (simp add: comp_def)
  then have "trace ?w = trace w @ map Resolved (as_completed [0..<length rendered] sched)"
    by (simp only: dispatch_order)
  then show ?thesis by (simp add: dispatch_def)
qed

lemma dispatch_files:
  "files (snd (dispatch post sched pages_data w)) = files w"
  by (simp add: dispatch_def collect_one_files)

section \<open>Assembly\<close>

lemma build_content_all:
  "\<forall>p\<in>set ps. res p = Some (v p) \<Longrightarrow>
   build_content res ps = Inr (concat (map (\<lambda>p. [JStr (page_separator p), v p]) ps))"
  by (induction ps) simp_all

lemma join_from_strs: "join_from i (map JStr ss) = Inr (concat ss)"
  by (induction ss arbitrary: i) simp_all

lemma interleave_strs:
  "concat (map (\<lambda>p. [JStr (a p), JStr (b p)]) ps) = map JStr (concat (map (\<lambda>p. [a p, b p]) ps))"
  by (induction ps) simp_all

lemma concat_interleave:
  "concat (concat (map (\<lambda>p. [a p, b p]) ps)) = concat (map (\<lambda>p. a p @ b p) ps)"
  by (induction ps) simp_all

lemma odd_items_interleave:
  "even n \<Longrightarrow>
   map snd (filter (\<lambda>(i, item). i mod 2 = 1) (List.enumerate n (concat (map (\<lambda>p. [a p, b p]) ps))))
   = map b ps"
proof (induction ps arbitrary: n)
  case Nil
  show ?case by simp
next
  case (Cons p ps)
  have "even (Suc (Suc n))" using Cons.prems by simp
  from Cons.IH [OF this] show ?case using Cons.prems
    by (simp add: mod_2_eq_odd)
qed

lemma clean_items_interleave:
  "clean_items (concat (map (\<lambda>p. [a p, b p]) ps)) = map b ps"
  unfolding clean_items_def by (rule odd_items_interleave) simp

lemma join_combined:
  "py_join (concat (map (\<lambda>p. [JStr (a p), JStr (b p)]) ps)) = Inr (concat (map (\<lambda>p. a p @ b p) ps))"
  unfolding py_join_def interleave_strs join_from_strs concat_interleave ..

lemma join_clean:
  "py_join (clean_items (concat (map (\<lambda>p. [JStr (a p), JStr (b p)]) ps))) = Inr (concat (map b ps))"
proof -
  have "clean_items (concat (map (\<lambda>p. [JStr (a p), JStr (b p)]) ps)) = map (\<lambda>p. JStr (b p)) ps"
    by (rule clean_items_interleave)
  also have "\<dots> = map JStr (map b ps)" by simp
  finally show ?thesis unfolding py_join_def by (simp only: join_from_strs)
qed

text \<open>
  When every page has resolved to a string, be it the text of the page or its failure
  marker, the run comes to its two writes, and what becomes of it is the file system's
  answer to them.
\<close>

lemma pdf_to_md_all_str:
  assumes "\<forall>p<length rendered. page_value post rendered p = JStr (t p)"
  shows "pdf_to_md fs post sched rendered path w =
           (case write_text fs (with_separators_path path)
                   (concat (map (\<lambda>p. page_separator p @ t p) [0..<length rendered]))
                   (snd (dispatch post sched (List.enumerate 0 rendered) w)) of
              (w2, Some e) \<Rightarrow> (w2, Some e)
            | (w2, None) \<Rightarrow> write_text fs path (concat (map t [0..<length rendered])) w2)"
proof -
  let ?d = "dispatch post sched (List.enumerate 0 rendered) w"
  let ?N = "length rendered"
  have res: "\<forall>p\<in>set [0..<?N]. results (fst ?d) p = Some (JStr (t p))"
    using assms by (simp add: dispatch_results)
  have bc: "build_content (results (fst ?d)) [0..<?N]
            = Inr (concat (map (\<lambda>p. [JStr (page_separator p), JStr (t p)]) [0..<?N]))"
    by (rule build_content_all [OF res])
  show ?thesis
    by (simp add: pdf_to_md_def Let_def case_prod_beta bc join_combined join_clean
        split: option.splits)
qed

lemma pdf_to_md_completes:
  assumes "\<forall>p<length rendered. page_value post rendered p = JStr (t p)"
    and "fs (with_separators_path path)
            (concat (map (\<lambda>p. page_separator p @ t p) [0..<length rendered])) = Written"
    and "fs path (concat (map t [0..<length rendered])) = Written"
  shows "snd (pdf_to_md fs post sched rendered path w) = None"
    and "trace (fst (pdf_to_md fs post sched rendered path w)) =
           trace w @ map Resolved (as_completed [0..<length rendered] sched)
           @ [WriteText (with_separators_path path)
                (concat (map (\<lambda>p. page_separator p @ t p) [0..<length rendered])),
              WriteText path (concat (map t [0..<length rendered]))]"
    and "files (fst (pdf_to_md fs post sched rendered path w)) =
           (files w)(with_separators_path path \<mapsto>
                       concat (map (\<lambda>p. page_separator p @ t p) [0..<length rendered]),
                     path \<mapsto> concat (map t [0..<length rendered]))"
  using assms(2, 3)
  by (simp_all add: pdf_to_md_all_str [OF assms(1)] write_text_def dispatch_trace dispatch_files)

lemma written_append: "written (xs @ ys) = written xs @ written ys"
  by (induction xs rule: written.induct) simp_all

lemma written_resolved: "written (map Resolved ps) = []"
  by (induction ps) simp_all

lemma pdf_to_md_written:
  assumes "\<forall>p<length rendered. page_value post rendered p = JStr (t p)"
  shows "written (trace (fst (pdf_to_md fs post sched rendered path w))) =
           written (trace w)
           @ (if fs (with_separators_path path)
                   (concat (map (\<lambda>p. page_separator p @ t p) [0..<length rendered])) = Written
              then (with_separators_path path,
                    concat (map (\<lambda>p. page_separator p @ t p) [0..<length rendered]))
                   # (if fs path (concat (map t [0..<length rendered])) = Written
                      then [(path, concat (map t [0..<length rendered]))] else [])
              else [])"
  by (simp add: pdf_to_md_all_str [OF assms] write_text_def dispatch_trace written_append
      written_resolved split: write_result.splits)

text \<open>
  A page whose \<open>content\<close> is not a string makes \<open>"".join\<close> raise: the run ends there, before
  anything is written.
\<close>

lemma join_from_not_str:
  "\<exists>v\<in>set items. \<forall>s. v \<noteq> JStr s \<Longrightarrow> \<exists>e. join_from i items = Inl e"
proof (induction i items rule: join_from.induct)
  case (1 i)
  then show ?case by simp
next
  case (2 i s items)
  then have "\<exists>v\<in>set items. \<forall>s. v \<noteq> JStr s" by auto
  from 2(1) [OF this] show ?case by auto
qed simp_all

lemma pdf_to_md_not_str:
  assumes p: "p < length rendered" "\<forall>s. page_value post rendered p \<noteq> JStr s"
  shows "\<exists>e. pdf_to_md fs post sched rendered path w
              = (snd (dispatch post sched (List.enumerate 0 rendered) w), Some e)"
proof -
  let ?d = "dispatch post sched (List.enumerate 0 rendered) w"
  let ?items = "concat (map (\<lambda>p. [JStr (page_separator p), page_value post rendered p])
                  [0..<length rendered])"
  have "\<forall>p\<in>set [0..<length rendered]. results (fst ?d) p = Some (page_value post rendered p)"
    by (simp add: dispatch_results)
  then have bc: "build_content (results (fst ?d)) [0..<length rendered] = Inr ?items"
    by (rule build_content_all)
  have "page_value post rendered p \<in> set ?items" using p(1) by auto
  with p(2) have "\<exists>v\<in>set ?items. \<forall>s. v \<noteq> JStr s" by blast
  then obtain e where "py_join ?items = Inl e"
    unfolding py_join_def using join_from_not_str by blast
  then have "pdf_to_md fs post sched rendered path w = (snd ?d, Some e)"
    by (simp add: pdf_to_md_def Let_def case_prod_beta bc)
  then show ?thesis by blast
qed



lemma pdf_to_md_trace_shape:
  "\<exists>ws. trace (fst (pdf_to_md fs post sched rendered path w)) =
          trace w @ map Resolved (as_completed [0..<length rendered] sched) @ ws"
  by (auto simp: pdf_to_md_def Let_def case_prod_beta write_text_def dispatch_trace
      split: sum.splits write_result.splits option.splits prod.splits)

section \<open>Stripping headings from a text\<close>

















section \<open>Sample values\<close>

lemma demo_values:
  "page_value demo_net [''a'', ''b''] 0 = JStr (demo_text 0)"
  "page_value demo_net [''a'', ''b''] 1 = JStr (demo_text 1)"
  by (simp_all add: page_value_def outcome_value_def ocr_image_def ocr_try_def bind_exc_def
      demo_net_def demo_text_def ok_response_def raise_for_status_def)

lemma demo_path: "with_separators_path ''out.md'' = ''out_with_separators.md''"
  by (simp add: with_separators_path_def)

lemma hello_value: "page_value hello_net rendered p = JStr ''hello''"
  by (simp add: page_value_def outcome_value_def ocr_image_def ocr_try_def bind_exc_def
      hello_net_def ok_response_def raise_for_status_def)

lemma upt_2: "[0..<length [a, b]] = [0, 1]"
  by (simp add: upt_rec)

lemma order_2: "as_completed [0, 1] [1] = [1, 0::nat]"
  by simp

section \<open>How \<open>ocr_image\<close> names a failure\<close>




lemma ocr_image_request_exception:
  "post p (make_request img) = Inl (RequestException m) \<Longrightarrow>
   ocr_image post p img = Inl (PlainException (prefix_request_failed @ m))"
  by (simp add: ocr_image_def ocr_try_def bind_exc_def)

lemma ocr_image_http_error:
  "post p (make_request img) = Inr r \<Longrightarrow> 400 \<le> status_code r \<Longrightarrow> status_code r < 600 \<Longrightarrow>
   ocr_image post p img = Inl (PlainException (prefix_request_failed @ http_error r))"
  by (simp add: ocr_image_def ocr_try_def bind_exc_def raise_for_status_def)

lemma ocr_image_missing_choices:
  "post p (make_request img) = Inr r \<Longrightarrow> raise_for_status r = Inr () \<Longrightarrow>
   json_result r = Inr (JObj kvs) \<Longrightarrow> map_of kvs ''choices'' = None \<Longrightarrow>
   ocr_image post p img = Inl (PlainException (prefix_parse_failed @ quoted ''choices''))"
  by (simp add: ocr_image_def ocr_try_def bind_exc_def)

lemma ocr_image_empty_choices:
  "post p (make_request img) = Inr r \<Longrightarrow> raise_for_status r = Inr () \<Longrightarrow>
   json_result r = Inr (JObj kvs) \<Longrightarrow> map_of kvs ''choices'' = Some (JArr []) \<Longrightarrow>
   ocr_image post p img = Inl (PlainException (prefix_parse_failed @ ''list index out of range''))"
  by (simp add: ocr_image_def ocr_try_def bind_exc_def)



section \<open>Replacing \<open>.md\<close> in a path\<close>

lemma replace_absent:
  "\<not> contains_str s ''.md'' \<Longrightarrow> py_replace s ''.md'' new = s"
  by (induction s) auto

lemma no_straddle:
  "startswith (c # cs @ ''.md'' @ rest) ''.md'' \<Longrightarrow> startswith (c # cs) ''.md''"
proof (cases cs)
  case Nil
  then show "startswith (c # cs @ ''.md'' @ rest) ''.md'' \<Longrightarrow> ?thesis" by simp
next
  case (Cons x xs)
  then show "startswith (c # cs @ ''.md'' @ rest) ''.md'' \<Longrightarrow> ?thesis"
    by (cases xs) simp_all
qed

lemma replace_segment:
  "\<not> contains_str seg ''.md'' \<Longrightarrow>
   py_replace (seg @ ''.md'' @ rest) ''.md'' new = seg @ new @ py_replace rest ''.md'' new"
proof (induction seg)
  case Nil
  show ?case by simp
next
  case (Cons c cs)
  from Cons.prems have ns: "\<not> startswith (c # cs) ''.md''" and nc: "\<not> contains_str cs ''.md''"
    by simp_all
  from ns no_straddle [of c cs rest]
  have "\<not> startswith (c # cs @ ''.md'' @ rest) ''.md''" by blast
  then have "py_replace ((c # cs) @ ''.md'' @ rest) ''.md'' new
             = c # py_replace (cs @ ''.md'' @ rest) ''.md'' new"
    by (simp del: startswith.simps)
  then show ?case using Cons.IH [OF nc] by simp
qed

lemma replace_join:
  "\<forall>s\<in>set segs. \<not> contains_str s ''.md'' \<Longrightarrow>
   py_replace (str_join ''.md'' segs) ''.md'' new = str_join new segs"
proof (induction "''.md''" segs rule: str_join.induct)
  case 1
  show ?case by simp
next
  case (2 s)
  then show ?case by (simp add: replace_absent)
next
  case (3 s s' rest)
  then have a: "\<not> contains_str s ''.md''" and r: "\<forall>s\<in>set (s' # rest). \<not> contains_str s ''.md''"
    by simp_all
  have "py_replace (str_join ''.md'' (s # s' # rest)) ''.md'' new
        = s @ new @ py_replace (str_join ''.md'' (s' # rest)) ''.md'' new"
    using replace_segment [OF a] by (simp del: py_replace.simps)
  then show ?case using 3(1) [OF r] by simp
qed

lemma hello_all: "\<forall>p<length rendered. page_value hello_net rendered p = JStr ''hello''"
  by (simp add: hello_value)



section \<open>The transport of the sample server\<close>

lemma create_session_http:
  "find (\<lambda>(prefix, a). startswith ENDPOINT prefix) create_session
   = Some (''http://'',
       \<lparr>pool_connections = MAX_WORKERS, pool_maxsize = MAX_WORKERS * 2,
        max_retries = \<lparr>retry_total = 3, backoff_factor = 1 / 10,
                       status_forcelist = [500, 502, 503, 504],
                       allowed_methods = DEFAULT_ALLOWED_METHODS\<rparr>\<rparr>)"
  by (simp add: create_session_def ENDPOINT_def Let_def)

lemma post_flaky:
  "session_post create_session ENDPOINT (flaky_server p) = (Inr server_error_500, 1)"
  by (simp add: session_post_def create_session_http DEFAULT_ALLOWED_METHODS_def
      flaky_server_def numeral_3_eq_3)

section \<open>One entry per page\<close>

text \<open>
  C1. When the dispatch phase of \<open>pdf_to_md\<close> is over, the results mapping of a document
  of \<open>N\<close> pages has exactly the keys \<open>0, ..., N-1\<close>: \<open>N\<close> entries, no gap, and each entry
  is what the page's own OCR call gave, its text or its failure marker. This holds for
  every network, so also when every call fails, and for every completion order.
\<close>

theorem dispatch_results_complete:
  "dom (results (fst (dispatch post sched (List.enumerate 0 rendered) w))) = {0..<length rendered}
   \<and> card (dom (results (fst (dispatch post sched (List.enumerate 0 rendered) w)))) = length rendered
   \<and> (\<forall>p<length rendered.
        results (fst (dispatch post sched (List.enumerate 0 rendered) w)) p
        = Some (page_value post rendered p))"
proof -
  have "dom (results (fst (dispatch post sched (List.enumerate 0 rendered) w))) = {0..<length rendered}"
    by (auto simp: dom_def dispatch_results)
  then show ?thesis by (simp add: dispatch_results)
qed

theorem dispatch_results_complete_witness:
  "dom (results (fst (dispatch all_fail_net [2, 0] (List.enumerate 0 [''a'', ''b'', ''c''])
          empty_world))) = {0..<3}
   \<and> card (dom (results (fst (dispatch all_fail_net [2, 0]
          (List.enumerate 0 [''a'', ''b'', ''c'']) empty_world)))) = 3
   \<and> results (fst (dispatch all_fail_net [2, 0] (List.enumerate 0 [''a'', ''b'', ''c''])
          empty_world)) 1
       = Some (JStr (failure_marker (PlainException msg_timeout)))"
proof -
  have v: "page_value all_fail_net [''a'', ''b'', ''c''] 1
           = JStr (failure_marker (PlainException msg_timeout))"
    by (simp add: page_value_def outcome_value_def ocr_image_def ocr_try_def bind_exc_def
        all_fail_net_def)
  show ?thesis
    using dispatch_results_complete [of all_fail_net "[2, 0]" "[''a'', ''b'', ''c'']" empty_world] v
    by (simp add: numeral_3_eq_3)
qed

section \<open>Page order of the output\<close>

text \<open>
  C2. Whenever \<open>pdf_to_md\<close> comes to write its files (every page has resolved to a string;
  otherwise nothing is written, \<open>pdf_to_md_not_str\<close>), page content stands in them in
  increasing page order, page 0 first and the last page last: the text written to the file
  with separators is the heading and text of page 0, then of page 1, and so on, and the
  text written to the clean file is the page texts in the same order. The first is written
  if the file system accepts it, the second if it accepts both. The schedule \<open>sched\<close> does
  not occur on the right-hand side: the files are the same for every completion order of
  the OCR calls (and, by \<open>as_completed_any_order\<close>, every order of the pages is the order of
  some schedule).
\<close>

theorem output_in_page_order:
  assumes "\<forall>p<length rendered. page_value post rendered p = JStr (t p)"
  shows "written (trace (fst (pdf_to_md fs post sched rendered path w))) =
           written (trace w)
           @ (if fs (with_separators_path path)
                   (concat (map (\<lambda>p. page_separator p @ t p) [0..<length rendered])) = Written
              then (with_separators_path path,
                    concat (map (\<lambda>p. page_separator p @ t p) [0..<length rendered]))
                   # (if fs path (concat (map t [0..<length rendered])) = Written
                      then [(path, concat (map t [0..<length rendered]))] else [])
              else [])"
  by (rule pdf_to_md_written [OF assms])

theorem output_in_page_order_witness:
  "page_value demo_net [''a'', ''b''] 0 = JStr (demo_text 0)
   \<and> page_value demo_net [''a'', ''b''] 1 = JStr (demo_text 1)
   \<and> as_completed [0 ..< 2] [1] = [1, 0]
   \<and> ok_disk ''out_with_separators.md''
        (page_separator 0 @ demo_text 0 @ page_separator 1 @ demo_text 1) = Written
   \<and> ok_disk ''out.md'' (demo_text 0 @ demo_text 1) = Written
   \<and> written (trace (fst (pdf_to_md ok_disk demo_net [1] [''a'', ''b''] ''out.md'' empty_world))) =
       [(''out_with_separators.md'',
         page_separator 0 @ demo_text 0 @ page_separator 1 @ demo_text 1),
        (''out.md'', demo_text 0 @ demo_text 1)]"
proof -
  have h: "\<forall>p<length [''a'', ''b'']. page_value demo_net [''a'', ''b''] p = JStr (demo_text p)"
    using demo_values by (simp add: less_Suc_eq)
  have o: "as_completed [0 ..< 2] [1] = [1, 0]"
    by (simp add: upt_rec)
  show ?thesis
    using output_in_page_order [where fs = ok_disk and path = "''out.md''" and sched = "[1]"
        and w = empty_world, OF h] demo_values o
    unfolding upt_2 demo_path by (simp add: empty_world_def ok_disk_def)
qed

section \<open>The path of the file with separators\<close>

text \<open>
  C3, at the output path \<open>out.txt\<close>, on a file system that accepts every write. The path
  derived for the file with separators is \<open>out.txt\<close> itself, not a sibling with
  \<open>_with_separators\<close> before the extension: both texts are written to \<open>out.txt\<close>, the clean
  one last, and no file \<open>out_with_separators.txt\<close> exists after the run. The text with
  separators, which the run reports as saved, is lost.
\<close>

theorem out_txt_separators_overwritten:
  "with_separators_path ''out.txt'' = ''out.txt''
   \<and> written (trace (fst (pdf_to_md ok_disk hello_net [] [''a''] ''out.txt'' empty_world))) =
        [(''out.txt'', page_separator 0 @ ''hello''), (''out.txt'', ''hello'')]
   \<and> files (fst (pdf_to_md ok_disk hello_net [] [''a''] ''out.txt'' empty_world)) ''out.txt''
        = Some ''hello''
   \<and> files (fst (pdf_to_md ok_disk hello_net [] [''a''] ''out.txt'' empty_world))
        ''out_with_separators.txt'' = None"
proof -
  have same: "with_separators_path ''out.txt'' = ''out.txt''"
    by (simp add: with_separators_path_def)
  have h: "\<forall>p<length [''a'']. page_value hello_net [''a''] p = JStr ''hello''" by (rule hello_all)
  show ?thesis
    by (simp add: pdf_to_md_completes [OF h] ok_disk_def same written_append written_resolved
        empty_world_def)
qed

text \<open>
  C9. An output path without \<open>.md\<close> is its own derived path, so that both texts are
  written to that one file, in that order, and after the run the file holds the clean
  text and nothing else has changed (the file system accepting both writes). And in a
  path that is any number of segments free of \<open>.md\<close>, joined by \<open>.md\<close>, every one of these
  occurrences becomes \<open>_with_separators.md\<close>, not only the last.
\<close>

theorem with_separators_path_rewrites_every_md:
  "(\<not> contains_str path ''.md'' \<longrightarrow> with_separators_path path = path)
   \<and> (\<not> contains_str path ''.md''
        \<and> (\<forall>p<length rendered. page_value post rendered p = JStr (t p))
        \<and> fs path (concat (map (\<lambda>p. page_separator p @ t p) [0..<length rendered])) = Written
        \<and> fs path (concat (map t [0..<length rendered])) = Written \<longrightarrow>
        written (trace (fst (pdf_to_md fs post sched rendered path w))) =
          written (trace w)
          @ [(path, concat (map (\<lambda>p. page_separator p @ t p) [0..<length rendered])),
             (path, concat (map t [0..<length rendered]))]
        \<and> files (fst (pdf_to_md fs post sched rendered path w)) =
          (files w)(path \<mapsto> concat (map t [0..<length rendered])))
   \<and> ((\<forall>s\<in>set segs. \<not> contains_str s ''.md'') \<longrightarrow>
        with_separators_path (str_join ''.md'' segs) = str_join ''_with_separators.md'' segs)"
proof (intro conjI impI)
  assume "\<not> contains_str path ''.md''"
  then show "with_separators_path path = path"
    by (simp add: with_separators_path_def replace_absent)
next
  assume a: "\<not> contains_str path ''.md''
        \<and> (\<forall>p<length rendered. page_value post rendered p = JStr (t p))
        \<and> fs path (concat (map (\<lambda>p. page_separator p @ t p) [0..<length rendered])) = Written
        \<and> fs path (concat (map t [0..<length rendered])) = Written"
  then have same: "with_separators_path path = path"
    by (simp add: with_separators_path_def replace_absent)
  from a have all: "\<forall>p<length rendered. page_value post rendered p = JStr (t p)" by blast
  from a have a1: "fs (with_separators_path path)
      (concat (map (\<lambda>p. page_separator p @ t p) [0..<length rendered])) = Written"
    by (simp add: same)
  from a have a2: "fs path (concat (map t [0..<length rendered])) = Written" by blast
  show "written (trace (fst (pdf_to_md fs post sched rendered path w))) =
          written (trace w)
          @ [(path, concat (map (\<lambda>p. page_separator p @ t p) [0..<length rendered])),
             (path, concat (map t [0..<length rendered]))]"
    by (simp add: pdf_to_md_completes(2) [OF all a1 a2] same written_append written_resolved)
  show "files (fst (pdf_to_md fs post sched rendered path w)) =
          (files w)(path \<mapsto> concat (map t [0..<length rendered]))"
    by (simp add: pdf_to_md_completes(3) [OF all a1 a2] same)
next
  assume "\<forall>s\<in>set segs. \<not> contains_str s ''.md''"
  then show "with_separators_path (str_join ''.md'' segs) = str_join ''_with_separators.md'' segs"
    unfolding with_separators_path_def by (rule replace_join)
qed

theorem with_separators_path_rewrites_every_md_witness:
  "\<not> contains_str ''notes'' ''.md''
   \<and> with_separators_path ''notes'' = ''notes''
   \<and> page_value hello_net [''a''] 0 = JStr ''hello''
   \<and> ok_disk ''notes'' (page_separator 0 @ ''hello'') = Written
   \<and> ok_disk ''notes'' ''hello'' = Written
   \<and> written (trace (fst (pdf_to_md ok_disk hello_net [] [''a''] ''notes'' empty_world))) =
        [(''notes'', page_separator 0 @ ''hello''), (''notes'', ''hello'')]
   \<and> files (fst (pdf_to_md ok_disk hello_net [] [''a''] ''notes'' empty_world)) =
        (files empty_world)(''notes'' \<mapsto> ''hello'')
   \<and> \<not> contains_str ''a'' ''.md'' \<and> \<not> contains_str ''.bak/out'' ''.md''
   \<and> \<not> contains_str [] ''.md''
   \<and> str_join ''.md'' [''a'', ''.bak/out'', []] = ''a.md.bak/out.md''
   \<and> with_separators_path ''a.md.bak/out.md''
       = ''a_with_separators.md.bak/out_with_separators.md''"
proof -
  note T = with_separators_path_rewrites_every_md [where path = "''notes''"
      and rendered = "[''a'']" and post = hello_net and t = "\<lambda>p. ''hello''" and sched = "[]"
      and w = empty_world and segs = "[''a'', ''.bak/out'', []]" and fs = ok_disk]
  have n: "\<not> contains_str ''notes'' ''.md''" by simp
  have h: "\<forall>p<length [''a'']. page_value hello_net [''a''] p = JStr ''hello''" by (rule hello_all)
  have d1: "ok_disk ''notes'' (concat (map (\<lambda>p. page_separator p @ ''hello'') [0..<length [''a'']]))
            = Written" by (simp add: ok_disk_def)
  have d2: "ok_disk ''notes'' (concat (map (\<lambda>p. ''hello'') [0..<length [''a'']])) = Written"
    by (simp add: ok_disk_def)
  have sg: "\<forall>s\<in>set [''a'', ''.bak/out'', []]. \<not> contains_str s ''.md''" by simp
  have j: "str_join ''.md'' [''a'', ''.bak/out'', []] = ''a.md.bak/out.md''" by simp
  have c1: "with_separators_path ''notes'' = ''notes''"
    using T [THEN conjunct1, THEN mp, OF n] .
  have c2: "written (trace (fst (pdf_to_md ok_disk hello_net [] [''a''] ''notes'' empty_world))) =
        [(''notes'', page_separator 0 @ ''hello''), (''notes'', ''hello'')]
   \<and> files (fst (pdf_to_md ok_disk hello_net [] [''a''] ''notes'' empty_world)) =
        (files empty_world)(''notes'' \<mapsto> ''hello'')"
    using T [THEN conjunct2, THEN conjunct1, THEN mp, OF conjI [OF n conjI [OF h conjI [OF d1 d2]]]]
    by (simp add: empty_world_def)
  have c3: "with_separators_path ''a.md.bak/out.md''
       = ''a_with_separators.md.bak/out_with_separators.md''"
    using T [THEN conjunct2, THEN conjunct2, THEN mp, OF sg] unfolding j by simp
  show ?thesis using n c1 hello_value c2 sg j c3 by (simp add: ok_disk_def)
qed

section \<open>A status 500 on the POST\<close>

text \<open>
  C4, at a server that answers the first transmission of a page's request with status 500
  and would answer a second one with the text. The session of \<open>create_session\<close> lists
  500 among the statuses to retry on, but its \<open>Retry\<close> retries only on the default methods,
  and \<open>session.post\<close> sends a POST: the request is transmitted once, the 500 comes back to
  \<open>ocr_image\<close>, \<open>raise_for_status\<close> raises, and the page is stored as failed. The same
  \<open>Retry\<close> does retry a GET against the same server, which then succeeds on the second
  transmission.
\<close>

theorem post_500_not_retried:
  "session_post create_session ENDPOINT (flaky_server 0) = (Inr server_error_500, 1)
   \<and> ocr_image (answering_net flaky_server) 0 ''img''
       = Inl (PlainException (prefix_request_failed @ http_error server_error_500))
   \<and> page_value (answering_net flaky_server) [''img''] 0
       = JStr (failure_marker
                 (PlainException (prefix_request_failed @ http_error server_error_500)))
   \<and> send \<lparr>retry_total = 3, backoff_factor = 1 / 10, status_forcelist = [500, 502, 503, 504],
             allowed_methods = DEFAULT_ALLOWED_METHODS\<rparr> GET (flaky_server 0) 3 0
       = (Inr (ok_response ''hello''), 2)"
proof -
  have a: "answering_net flaky_server 0 (make_request ''img'') = Inr server_error_500"
    by (simp add: answering_net_def make_request_def post_flaky)
  have st: "status_code server_error_500 = 500" by (simp add: server_error_500_def)
  have o: "ocr_image (answering_net flaky_server) 0 ''img''
       = Inl (PlainException (prefix_request_failed @ http_error server_error_500))"
    using ocr_image_http_error [of "answering_net flaky_server" 0 "''img''" server_error_500]
    by (simp add: a st)
  have g: "send \<lparr>retry_total = 3, backoff_factor = 1 / 10, status_forcelist = [500, 502, 503, 504],
             allowed_methods = DEFAULT_ALLOWED_METHODS\<rparr> GET (flaky_server 0) 3 0
       = (Inr (ok_response ''hello''), 2)"
    by (simp add: DEFAULT_ALLOWED_METHODS_def flaky_server_def numeral_3_eq_3 st
        ok_response_def)
  show ?thesis using post_flaky o g by (simp add: page_value_def outcome_value_def)
qed

section \<open>The clean file against the file with separators\<close>




section \<open>A body whose \<open>choices\<close> is null\<close>

text \<open>
  C6, at a response with status 200 and body \<open>{"choices": null}\<close>. The body lacks the
  expected text field, but subscripting \<open>None\<close> raises a \<open>TypeError\<close>, which none of the
  three handlers of \<open>ocr_image\<close> catches: the exception leaves \<open>ocr_image\<close> as it is, and
  the marker stored for the page carries the text of the \<open>TypeError\<close> without the
  response-parse category that a missing key or an empty list gets
  (\<open>ocr_image_missing_choices\<close>, \<open>ocr_image_empty_choices\<close>).
\<close>

theorem null_choices_not_classified:
  "ocr_image null_choices_net 0 ''img''
     = Inl (TypeError (quoted ''NoneType'' @ '' object is not subscriptable''))
   \<and> page_value null_choices_net [''img''] 0
     = JStr (failure_marker (TypeError (quoted ''NoneType'' @ '' object is not subscriptable'')))
   \<and> \<not> contains_str
          (failure_marker (TypeError (quoted ''NoneType'' @ '' object is not subscriptable'')))
          prefix_parse_failed"
proof -
  have o: "ocr_image null_choices_net 0 ''img''
     = Inl (TypeError (quoted ''NoneType'' @ '' object is not subscriptable''))"
    by (simp add: ocr_image_def ocr_try_def bind_exc_def null_choices_net_def
        raise_for_status_def not_subscriptable_def)
  have n: "\<not> contains_str
          (failure_marker (TypeError (quoted ''NoneType'' @ '' object is not subscriptable'')))
          prefix_parse_failed"
    by (simp add: failure_marker_def quoted_def prefix_parse_failed_def)
  show ?thesis using o n by (simp add: page_value_def outcome_value_def)
qed

section \<open>A timeout stays with its page\<close>




section \<open>Nothing is written before every page has resolved\<close>

text \<open>
  C8. In the events of a run, every \<open>write_text\<close>, successful or not, comes after the
  collection loop has taken the resolved future of every page: at the position of a write,
  each of the \<open>N\<close> pages has a \<open>Resolved\<close> event at an earlier position.
\<close>

theorem writes_after_barrier:
  assumes tr: "trace (fst (pdf_to_md fs post sched rendered path w)) = trace w @ evs"
    and k: "k < length evs" and wr: "is_write (evs ! k)"
    and p: "p < length rendered"
  shows "\<exists>j<k. evs ! j = Resolved p"
proof -
  let ?order = "as_completed [0..<length rendered] sched"
  obtain ws where "trace (fst (pdf_to_md fs post sched rendered path w)) =
      trace w @ map Resolved ?order @ ws"
    using pdf_to_md_trace_shape by blast
  with tr have evs: "evs = map Resolved ?order @ ws" by simp
  have "p \<in> set ?order" using p by (simp add: set_as_completed)
  then obtain j where j: "j < length ?order" "?order ! j = p"
    by (auto simp: in_set_conv_nth)
  have ej: "evs ! j = Resolved p" using j by (simp add: evs nth_append)
  have "\<not> k < length ?order"
  proof
    assume "k < length ?order"
    then have "evs ! k = Resolved (?order ! k)" by (simp add: evs nth_append)
    with wr show False by simp
  qed
  with j(1) have "j < k" by simp
  with ej show ?thesis by blast
qed

theorem writes_after_barrier_witness:
  "trace (fst (pdf_to_md ok_disk hello_net [1] [''a'', ''b''] ''out.md'' empty_world))
     = trace empty_world @ demo_events
   \<and> 2 < length demo_events
   \<and> is_write (demo_events ! 2)
   \<and> demo_events ! 2 = WriteText ''out_with_separators.md''
        (page_separator 0 @ ''hello'' @ page_separator 1 @ ''hello'')
   \<and> (0::nat) < length [''a'', ''b'']
   \<and> (\<exists>j<2. demo_events ! j = Resolved 0)"
proof -
  have h: "\<forall>p<length [''a'', ''b'']. page_value hello_net [''a'', ''b''] p = JStr ''hello''"
    by (simp add: hello_value)
  have tr: "trace (fst (pdf_to_md ok_disk hello_net [1] [''a'', ''b''] ''out.md'' empty_world))
     = trace empty_world @ demo_events"
    by (simp add: pdf_to_md_completes(2) [OF h] ok_disk_def upt_2 demo_path order_2
        demo_events_def)
  have k: "2 < length demo_events" by (simp add: demo_events_def)
  have wr: "demo_events ! 2 = WriteText ''out_with_separators.md''
        (page_separator 0 @ ''hello'' @ page_separator 1 @ ''hello'')"
    by (simp add: demo_events_def)
  have iw: "is_write (demo_events ! 2)" by (simp add: wr)
  have p: "(0::nat) < length [''a'', ''b'']" by simp
  from writes_after_barrier [OF tr k iw p] tr k iw wr p show ?thesis by blast
qed

end
